theory Spec2Isabelle
  imports Main "HOL-Library.Sublist"
begin

section \<open>JavaScript strings\<close>

text \<open>
  A JavaScript string is modelled as a \<^typ>\<open>string\<close> holding its UTF-8 bytes. The
  separators the program splits on (\<open>:\<close> and \<open>,\<close>) and every literal it compares with
  are ASCII, so splitting and comparing bytes is splitting and comparing the text.
  A value that may be \<open>null\<close> or \<open>undefined\<close> is an \<^typ>\<open>'a option\<close>; a string is
  truthy when it is present and not empty.
\<close>

definition truthy :: "string option \<Rightarrow> bool" where
  "truthy v = (case v of None \<Rightarrow> False | Some s \<Rightarrow> s \<noteq> [])"

text \<open>\<open>s.split(d)\<close> for a one-character separator: every separator cuts, empty pieces
  are kept, and the result is never the empty array (\<open>"".split(":")\<close> is \<open>[""]\<close>).\<close>

fun split_where :: "(char \<Rightarrow> bool) \<Rightarrow> string \<Rightarrow> string list" where
  "split_where sep [] = [[]]"
| "split_where sep (c # cs) =
     (if sep c then [] # split_where sep cs
      else (case split_where sep cs of
              [] \<Rightarrow> [[c]]
            | seg # segs \<Rightarrow> (c # seg) # segs))"

definition js_split :: "char \<Rightarrow> string \<Rightarrow> string list" where
  "js_split d s = split_where (\<lambda>c. c = d) s"

text \<open>\<open>s.startsWith(p)\<close> and \<open>s.slice(n)\<close> (for \<open>n\<close> not negative).\<close>

definition startsWith :: "string \<Rightarrow> string \<Rightarrow> bool" where
  "startsWith s p = (take (length p) s = p)"

definition slice :: "nat \<Rightarrow> string \<Rightarrow> string" where
  "slice n s = drop n s"

text \<open>
  \<open>s.trim()\<close> removes the WhiteSpace and LineTerminator code points of ECMAScript from
  both ends: U+0009 to U+000D, U+0020, U+00A0, U+1680, U+2000 to U+200A, U+2028,
  U+2029, U+202F, U+205F, U+3000 and U+FEFF, listed here by their UTF-8 bytes.
\<close>

definition js_whitespace :: "string list" where
  "js_whitespace =
    [[CHR 0x09], [CHR 0x0A], [CHR 0x0B], [CHR 0x0C], [CHR 0x0D], [CHR 0x20],
     [CHR 0xC2, CHR 0xA0],
     [CHR 0xE1, CHR 0x9A, CHR 0x80],
     [CHR 0xE2, CHR 0x80, CHR 0x80], [CHR 0xE2, CHR 0x80, CHR 0x81],
     [CHR 0xE2, CHR 0x80, CHR 0x82], [CHR 0xE2, CHR 0x80, CHR 0x83],
     [CHR 0xE2, CHR 0x80, CHR 0x84], [CHR 0xE2, CHR 0x80, CHR 0x85],
     [CHR 0xE2, CHR 0x80, CHR 0x86], [CHR 0xE2, CHR 0x80, CHR 0x87],
     [CHR 0xE2, CHR 0x80, CHR 0x88], [CHR 0xE2, CHR 0x80, CHR 0x89],
     [CHR 0xE2, CHR 0x80, CHR 0x8A],
     [CHR 0xE2, CHR 0x80, CHR 0xA8], [CHR 0xE2, CHR 0x80, CHR 0xA9],
     [CHR 0xE2, CHR 0x80, CHR 0xAF],
     [CHR 0xE2, CHR 0x81, CHR 0x9F],
     [CHR 0xE3, CHR 0x80, CHR 0x80],
     [CHR 0xEF, CHR 0xBB, CHR 0xBF]]"

fun strip_start :: "string list \<Rightarrow> string \<Rightarrow> string" where
  "strip_start ws [] = []"
| "strip_start ws (c # cs) =
     (case find (\<lambda>w. startsWith (c # cs) w) ws of
        None \<Rightarrow> c # cs
      | Some w \<Rightarrow> strip_start ws (drop (length w - 1) cs))"

definition trim :: "string \<Rightarrow> string" where
  "trim s = rev (strip_start (map rev js_whitespace) (rev (strip_start js_whitespace s)))"

section \<open>The platform's URL object\<close>

text \<open>
  Of a \<open>URL\<close> the program reads \<open>pathname\<close> and \<open>searchParams\<close> and writes \<open>pathname\<close>
  and \<open>search\<close>. The record holds the serialised path and the decoded name-value pairs of
  the query, in their order; the other components (scheme, host, fragment) are never
  touched. \<open>searchParams.get\<close> returns the value of the first pair with the name,
  \<open>searchParams.has\<close> whether there is one, and \<open>search = ""\<close> leaves no pair.
\<close>

record URL =
  pathname :: string
  searchParams :: "(string \<times> string) list"

definition searchParams_get :: "URL \<Rightarrow> string \<Rightarrow> string option" where
  "searchParams_get u k = map_of (searchParams u) k"

definition searchParams_has :: "URL \<Rightarrow> string \<Rightarrow> bool" where
  "searchParams_has u k = (k \<in> set (map fst (searchParams u)))"

text \<open>
  Assigning to \<open>pathname\<close> does not store the string as given. The setter of the URL
  Standard empties the path and runs the URL parser over the value, starting in its
  path start state with a state override; the requests of a worker have an \<open>http\<close> or
  \<open>https\<close> URL, a special scheme. The parser drops ASCII tab and newline; the path
  start state skips one leading \<open>/\<close> or \<open>\\<close>; the path state cuts the rest into segments
  at every \<open>/\<close> and \<open>\\<close> (with a state override \<open>?\<close> and \<open>#\<close> end nothing),
  percent-encodes each byte of the path percent-encode set (C0 controls, everything
  above U+007E, space, \<open>"\<close>, \<open>#\<close>, \<open><\<close>, \<open>>\<close>, \<open>?\<close>, \<open>^\<close>, the backquote, \<open>{\<close> and \<open>}\<close>) as
  \<open>%XX\<close>, drops a single-dot segment (\<open>.\<close> or \<open>%2e\<close>) and lets a double-dot segment
  (\<open>..\<close>, \<open>.%2e\<close>, \<open>%2e.\<close>, \<open>%2e%2e\<close>) remove the segment before it; a dot segment that
  ends the input leaves an empty last segment. \<open>pathname\<close> then reads every segment with
  a \<open>/\<close> before it.
\<close>

definition in_path_percent_encode_set :: "char \<Rightarrow> bool" where
  "in_path_percent_encode_set c =
     (let n = (of_char c :: nat) in
        n \<le> 0x1F \<or> n > 0x7E \<or>
        n \<in> set [0x20, 0x22, 0x23, 0x3C, 0x3E, 0x3F, 0x5E, 0x60, 0x7B, 0x7D])"

definition hex_digit :: "nat \<Rightarrow> char" where
  "hex_digit n = ''0123456789ABCDEF'' ! n"

definition percent_encode_byte :: "char \<Rightarrow> string" where
  "percent_encode_byte c =
     [CHR ''%'', hex_digit ((of_char c :: nat) div 16), hex_digit ((of_char c :: nat) mod 16)]"

definition utf8_percent_encode :: "string \<Rightarrow> string" where
  "utf8_percent_encode s =
     concat (map (\<lambda>c. if in_path_percent_encode_set c then percent_encode_byte c else [c]) s)"

definition is_single_dot :: "string \<Rightarrow> bool" where
  "is_single_dot b = (b \<in> set [''.'', ''%2e'', ''%2E''])"

definition is_double_dot :: "string \<Rightarrow> bool" where
  "is_double_dot b =
     (b \<in> set [''..'', ''.%2e'', ''.%2E'', ''%2e.'', ''%2E.'',
                  ''%2e%2e'', ''%2e%2E'', ''%2E%2e'', ''%2E%2E''])"

text \<open>The path state: the segments still to read (the last one ends the input) and the
  path built so far.\<close>

fun path_state :: "string list \<Rightarrow> string list \<Rightarrow> string list" where
  "path_state [] path = path"
| "path_state (buf # rest) path =
     path_state rest
       (if is_double_dot buf then (if rest = [] then butlast path @ [[]] else butlast path)
        else if is_single_dot buf then (if rest = [] then path @ [[]] else path)
        else path @ [buf])"

definition is_path_separator :: "char \<Rightarrow> bool" where
  "is_path_separator c = (c = CHR ''/'' \<or> c = CHR 0x5C)"

definition is_tab_or_newline :: "char \<Rightarrow> bool" where
  "is_tab_or_newline c = (c = CHR 0x09 \<or> c = CHR 0x0A \<or> c = CHR 0x0D)"

definition set_pathname :: "string \<Rightarrow> string" where
  "set_pathname v =
     (let input = filter (\<lambda>c. \<not> is_tab_or_newline c) v;
          rest = (case input of
                    [] \<Rightarrow> []
                  | c # cs \<Rightarrow> if is_path_separator c then cs else input);
          segments = map utf8_percent_encode (split_where is_path_separator rest)
      in concat (map (\<lambda>seg. CHR ''/'' # seg) (path_state segments [])))"

section \<open>The request wrapper\<close>

record Article =
  ns :: string
  title :: string

record ClientPref =
  className :: string
  classPrefix :: string

text \<open>The bindings of \<open>Env\<close> that the class reads.\<close>

record Env =
  PRIVATE_COOKIE_NAMES :: "string list"
  CACHED_NAMESPACES :: "string list"
  CLIENT_PREFS_COOKIE_NAME :: string
  CLIENT_PREFS_CLASS_PREFIXES :: "string list"
  PAGE_TTL :: int
  MISSING_PAGE_TTL :: int

text \<open>
  Of the \<open>Request\<close> the class uses its URL and its \<open>Cookie\<close> header; \<open>new Request(url,
  req)\<close> copies everything but the URL.

  The cookies object is read with \<open>this.cookies[name]\<close> only, so it is modelled by what
  that read gives for each name: \<open>undefined\<close>, a string, or a value that the object
  inherits from \<open>Object.prototype\<close> (a function, or the prototype itself for
  \<open>__proto__\<close>), which is truthy and is not a string. The field's initial value \<open>{}\<close>
  inherits from \<open>Object.prototype\<close>: reading one of the prototype's property names gives
  the inherited value, reading any other name gives \<open>undefined\<close>.
\<close>

datatype js_value = Undefined | Str string | Inherited

definition truthy_value :: "js_value \<Rightarrow> bool" where
  "truthy_value v = (case v of Undefined \<Rightarrow> False | Str s \<Rightarrow> s \<noteq> [] | Inherited \<Rightarrow> True)"

definition object_prototype_names :: "string list" where
  "object_prototype_names =
     [''constructor'', ''__defineGetter__'', ''__defineSetter__'', ''hasOwnProperty'',
      ''__lookupGetter__'', ''__lookupSetter__'', ''isPrototypeOf'', ''propertyIsEnumerable'',
      ''toString'', ''valueOf'', ''__proto__'', ''toLocaleString'']"

definition empty_object :: "string \<Rightarrow> js_value" where
  "empty_object n = (if n \<in> set object_prototype_names then Inherited else Undefined)"

text \<open>The \<open>TypeError\<close> of calling a method that the value does not have.\<close>

datatype error = TypeError

record Request =
  req_url :: URL
  cookie_header :: "string option"

record WikiRequest =
  req :: Request
  env :: Env
  cookies :: "string \<Rightarrow> js_value"
  url :: URL

definition DISQUALIFYING_QUERY_KEYS :: "string list" where
  "DISQUALIFYING_QUERY_KEYS =
     [''action'', ''veaction'', ''diff'', ''curid'', ''oldid'', ''debug'', ''redirect'']"

text \<open>The constructor; \<open>parse\<close> is the cookie library's parser, which returns the object
  that replaces the initial \<open>{}\<close> when the request has a non-empty \<open>Cookie\<close> header.\<close>

definition new_WikiRequest :: "(string \<Rightarrow> (string \<Rightarrow> js_value)) \<Rightarrow> Request \<Rightarrow> Env \<Rightarrow> WikiRequest" where
  "new_WikiRequest parse r e =
     \<lparr>req = r, env = e,
      cookies = (if truthy (cookie_header r) then parse (the (cookie_header r)) else empty_object),
      url = req_url r\<rparr>"

text \<open>
  \<open>extractArticle\<close>: \<open>let [ns, articleTitle] = title.split(':')\<close> binds the first two
  pieces and drops the others; \<open>articleTitle\<close> is \<open>undefined\<close> when there is one piece
  only. The split of a string has at least one piece, so the first case cannot occur.
\<close>

definition extractArticle :: "string option \<Rightarrow> Article option" where
  "extractArticle t =
     (if \<not> truthy t then Some \<lparr>ns = [], title = ''Main_Page''\<rparr>
      else (case js_split CHR '':'' (the t) of
              [] \<Rightarrow> None
            | [n] \<Rightarrow> Some \<lparr>ns = [], title = n\<rparr>
            | n # articleTitle # _ \<Rightarrow>
                if articleTitle = [] then None else Some \<lparr>ns = n, title = articleTitle\<rparr>))"

definition targetArticle :: "WikiRequest \<Rightarrow> Article option" where
  "targetArticle w =
     (if pathname (url w) = ''/index.php'' then extractArticle (searchParams_get (url w) ''title'')
      else if pathname (url w) = ''/'' then Some \<lparr>ns = [], title = ''Main_Page''\<rparr>
      else if startsWith (pathname (url w)) ''/w/'' then extractArticle (Some (slice 3 (pathname (url w))))
      else None)"

text \<open>The loop over \<open>PRIVATE_COOKIE_NAMES\<close> of \<open>isEligibleForCache\<close>: true when it
  reaches its \<open>return false\<close>.\<close>

fun private_cookie_set :: "(string \<Rightarrow> js_value) \<Rightarrow> string list \<Rightarrow> bool" where
  "private_cookie_set cs [] = False"
| "private_cookie_set cs (cookieName # names) =
     (if truthy_value (cs cookieName) then True else private_cookie_set cs names)"

definition isEligibleForCache :: "WikiRequest \<Rightarrow> bool" where
  "isEligibleForCache w =
     (if private_cookie_set (cookies w) (PRIVATE_COOKIE_NAMES (env w)) then False
      else (case targetArticle w of
              None \<Rightarrow> False
            | Some article \<Rightarrow>
                if list_ex (\<lambda>key. searchParams_has (url w) key) DISQUALIFYING_QUERY_KEYS then False
                else if ns article \<notin> set (CACHED_NAMESPACES (env w)) then False
                else True))"

text \<open>\<open>getClientPrefs\<close>: the inner loop pushes the first class name that starts with the
  prefix and breaks; the outer loop runs it for every prefix in turn. A truthy value
  that is not a string has no \<open>split\<close> method, and calling it throws a \<open>TypeError\<close>.\<close>

fun scan_classNames :: "string \<Rightarrow> string list \<Rightarrow> ClientPref list \<Rightarrow> ClientPref list" where
  "scan_classNames p [] clientPrefs = clientPrefs"
| "scan_classNames p (c # cs) clientPrefs =
     (if startsWith c p then clientPrefs @ [\<lparr>className = c, classPrefix = p\<rparr>]
      else scan_classNames p cs clientPrefs)"

fun scan_classPrefixes :: "string list \<Rightarrow> string list \<Rightarrow> ClientPref list \<Rightarrow> ClientPref list" where
  "scan_classPrefixes [] classNames clientPrefs = clientPrefs"
| "scan_classPrefixes (p # ps) classNames clientPrefs =
     scan_classPrefixes ps classNames (scan_classNames p classNames clientPrefs)"

definition getClientPrefs :: "WikiRequest \<Rightarrow> error + ClientPref list" where
  "getClientPrefs w =
     (let clientPrefsCookie = cookies w (CLIENT_PREFS_COOKIE_NAME (env w)) in
      if \<not> truthy_value clientPrefsCookie then Inr []
      else (case clientPrefsCookie of
              Str s \<Rightarrow> Inr (scan_classPrefixes (CLIENT_PREFS_CLASS_PREFIXES (env w))
                              (map trim (js_split CHR '','' s)) [])
            | _ \<Rightarrow> Inl TypeError))"

text \<open>
  \<open>fetch\<close> in three parts: \<open>rewrite\<close> is its \<open>if\<close> block, which assigns the path
  \<open>/w/ns:title\<close> (\<open>/w/title\<close> when \<open>ns\<close> is empty) to \<open>url.pathname\<close>, empties
  \<open>url.search\<close> and builds the new request from the URL; \<open>cf_options\<close> is the \<open>cf\<close>
  object, read from the state the rewrite left; \<open>fetch\<close> returns that state and what is
  handed to the platform's \<open>fetch\<close>, the request and the options. \<open>cacheTtlByStatus\<close>
  is the object literal as the list of its entries, \<open>None\<close> for \<open>undefined\<close>.
\<close>

record CfProperties =
  cacheTtlByStatus :: "(string \<times> int) list option"
  cacheEverything :: bool

definition canonical_path :: "Article \<Rightarrow> string" where
  "canonical_path a = ''/w/'' @ (if ns a \<noteq> [] then ns a @ '':'' else []) @ title a"

definition rewrite :: "WikiRequest \<Rightarrow> WikiRequest" where
  "rewrite w =
     (let article = targetArticle w in
      if isEligibleForCache w \<and> article \<noteq> None \<and> pathname (url w) = ''/index.php''
      then (let u = (url w)\<lparr>pathname := set_pathname (canonical_path (the article)),
                             searchParams := []\<rparr>
            in w\<lparr>url := u, req := (req w)\<lparr>req_url := u\<rparr>\<rparr>)
      else w)"

definition cf_options :: "WikiRequest \<Rightarrow> CfProperties" where
  "cf_options w =
     \<lparr>cacheTtlByStatus =
        (if isEligibleForCache w
         then Some [(''200'', PAGE_TTL (env w)), (''300-399'', -1),
                    (''404'', MISSING_PAGE_TTL (env w)), (''500-599'', -1)]
         else None),
      cacheEverything = isEligibleForCache w\<rparr>"

definition fetch :: "WikiRequest \<Rightarrow> WikiRequest \<times> Request \<times> CfProperties" where
  "fetch w = (let w' = rewrite w in (w', req w', cf_options w'))"

section \<open>The preference extractor as the specification words it\<close>

text \<open>
  For each configured prefix, in the configured order, the first candidate class name
  (in the client's order) that starts with the prefix, if there is one; nothing when
  the cookie is absent or empty.
\<close>

definition first_with_prefix :: "string list \<Rightarrow> string \<Rightarrow> ClientPref list" where
  "first_with_prefix classNames p =
     (case find (\<lambda>c. startsWith c p) classNames of
        None \<Rightarrow> []
      | Some c \<Rightarrow> [\<lparr>className = c, classPrefix = p\<rparr>])"


text \<open>The value of the preference cookie, when reading it gives a string.\<close>

definition cookie_value :: "js_value \<Rightarrow> string option" where
  "cookie_value v = (case v of Str s \<Rightarrow> Some s | _ \<Rightarrow> None)"

text \<open>The first class name of the preference cookie that starts with a prefix, if the
  cookie has a non-empty value and one of its class names does.\<close>

definition first_match :: "WikiRequest \<Rightarrow> string \<Rightarrow> string option" where
  "first_match w p =
     (case cookie_value (cookies w (CLIENT_PREFS_COOKIE_NAME (env w))) of
        None \<Rightarrow> None
      | Some v \<Rightarrow> if v = [] then None
                  else find (\<lambda>c. startsWith c p) (map trim (js_split CHR '','' v)))"

text \<open>A byte that the \<open>pathname\<close> setter leaves alone wherever it stands.\<close>

definition url_plain :: "char \<Rightarrow> bool" where
  "url_plain c = (\<not> in_path_percent_encode_set c \<and> \<not> is_path_separator c
                   \<and> c \<noteq> CHR ''.'' \<and> c \<noteq> CHR ''%'')"

section \<open>Example requests\<close>

definition env_main :: Env where
  "env_main = \<lparr>PRIVATE_COOKIE_NAMES = [''session''], CACHED_NAMESPACES = ['''', ''A'', ''Foo''],
                CLIENT_PREFS_COOKIE_NAME = ''prefs'', CLIENT_PREFS_CLASS_PREFIXES = [],
                PAGE_TTL = 3600, MISSING_PAGE_TTL = 60\<rparr>"

text \<open>The object that the parser returns for one cookie, here one without a
  prototype.\<close>

definition one_cookie :: "string \<Rightarrow> string \<Rightarrow> string \<Rightarrow> js_value" where
  "one_cookie k v n = (if n = k then Str v else Undefined)"

text \<open>A request without a \<open>Cookie\<close> header, for a path and a query.\<close>

definition request_of :: "string \<Rightarrow> (string \<times> string) list \<Rightarrow> Env \<Rightarrow> WikiRequest" where
  "request_of p q e =
     new_WikiRequest (\<lambda>h. empty_object)
       \<lparr>req_url = \<lparr>pathname = p, searchParams = q\<rparr>, cookie_header = None\<rparr> e"

text \<open>\<open>GET /index.php?title=Foo:Bar\<close> with the header \<open>Cookie: session=\<close>.\<close>

definition w_ok :: WikiRequest where
  "w_ok = new_WikiRequest (\<lambda>h. one_cookie ''session'' '''')
            \<lparr>req_url = \<lparr>pathname = ''/index.php'', searchParams = [(''title'', ''Foo:Bar'')]\<rparr>,
             cookie_header = Some ''session=''\<rparr> env_main"

definition w_edit :: WikiRequest where
  "w_edit = request_of ''/index.php'' [(''title'', ''Foo''), (''action'', ''edit'')] env_main"

definition w_main :: WikiRequest where
  "w_main = request_of ''/index.php'' [(''title'', ''Foo'')] env_main"

definition w_abc :: WikiRequest where
  "w_abc = request_of ''/index.php'' [(''title'', ''A:B:C'')] env_main"

definition w_space :: WikiRequest where
  "w_space = request_of ''/index.php'' [(''title'', ''Foo Bar'')] env_main"

definition w_dots :: WikiRequest where
  "w_dots = request_of ''/index.php'' [(''title'', ''../x'')] env_main"

text \<open>\<open>GET /index.php?title=User talk:Foo\<close> where the namespace \<open>User talk\<close> is cached.\<close>

definition w_talk :: WikiRequest where
  "w_talk = request_of ''/index.php'' [(''title'', ''User talk:Foo'')]
              (env_main\<lparr>CACHED_NAMESPACES := ['''', ''User talk'']\<rparr>)"

definition w_robots :: WikiRequest where
  "w_robots = request_of ''/index.php'' [(''title'', ''../robots.txt'')] env_main"

text \<open>A request to \<open>/\<close> whose cookie \<open>prefs\<close> has the value \<open>v\<close>, with the class prefixes
  \<open>ps\<close> configured.\<close>

definition w_prefs :: "string \<Rightarrow> string list \<Rightarrow> WikiRequest" where
  "w_prefs v ps =
     new_WikiRequest (\<lambda>h. one_cookie ''prefs'' v)
       \<lparr>req_url = \<lparr>pathname = ''/'', searchParams = []\<rparr>, cookie_header = Some (''prefs='' @ v)\<rparr>
       \<lparr>PRIVATE_COOKIE_NAMES = [], CACHED_NAMESPACES = [''''],
        CLIENT_PREFS_COOKIE_NAME = ''prefs'', CLIENT_PREFS_CLASS_PREFIXES = ps,
        PAGE_TTL = 3600, MISSING_PAGE_TTL = 60\<rparr>"


section \<open>Auxiliary facts\<close>

subsection \<open>Splitting\<close>

lemma split_where_not_Nil: "split_where sep s \<noteq> []"
  by (induction s) (auto split: list.splits)

lemma split_where_no_sep: "\<forall>c\<in>set s. \<not> sep c \<Longrightarrow> split_where sep s = [s]"
  by (induction s) auto

lemma split_where_at_sep:
  "\<forall>c\<in>set a. \<not> sep c \<Longrightarrow> sep d \<Longrightarrow> split_where sep (a @ d # b) = a # split_where sep b"
  by (induction a) auto

lemma split_where_cong:
  "\<forall>c\<in>set s. f c = g c \<Longrightarrow> split_where f s = split_where g s"
  by (induction s) auto

lemma split_where_pieces:
  "seg \<in> set (split_where sep s) \<Longrightarrow> c \<in> set seg \<Longrightarrow> \<not> sep c"
proof (induction s arbitrary: seg)
  case Nil
  then show ?case by simp
next
  case (Cons x xs)
  show ?case
  proof (cases "sep x")
    case True
    with Cons show ?thesis by auto
  next
    case False
    obtain y ys where ys: "split_where sep xs = y # ys"
      using split_where_not_Nil [of sep xs] by (cases "split_where sep xs") auto
    with False Cons.prems have "seg = x # y \<or> seg \<in> set ys" by auto
    then show ?thesis
    proof
      assume "seg = x # y"
      with Cons.prems(2) have "c = x \<or> c \<in> set y" by auto
      then show ?thesis using False Cons.IH [of y] ys by auto
    next
      assume "seg \<in> set ys"
      then show ?thesis using Cons.IH [of seg] Cons.prems(2) ys by auto
    qed
  qed
qed

lemma split_where_subset:
  "seg \<in> set (split_where sep s) \<Longrightarrow> set seg \<subseteq> set s"
proof (induction s arbitrary: seg)
  case Nil
  then show ?case by simp
next
  case (Cons x xs)
  obtain y ys where ys: "split_where sep xs = y # ys"
    using split_where_not_Nil [of sep xs] by (cases "split_where sep xs") auto
  show ?case
  proof (cases "sep x")
    case True
    with Cons show ?thesis by auto
  next
    case False
    with Cons.prems ys have "seg = x # y \<or> seg \<in> set ys" by auto
    then show ?thesis using Cons.IH [of y] Cons.IH [of seg] ys by auto
  qed
qed

lemma split_where_single: "split_where sep s = [n] \<Longrightarrow> n = s"
proof (induction s arbitrary: n)
  case Nil
  then show ?case by simp
next
  case (Cons x xs)
  then show ?case
    using split_where_not_Nil [of sep xs]
    by (auto split: if_splits list.splits)
qed

lemma join_split_where:
  "concat (map (\<lambda>seg. d # seg) (split_where (\<lambda>c. c = d) s)) = d # s"
proof (induction s)
  case Nil
  then show ?case by simp
next
  case (Cons x xs)
  obtain y ys where ys: "split_where (\<lambda>c. c = d) xs = y # ys"
    using split_where_not_Nil [of "\<lambda>c. c = d" xs] by (cases "split_where (\<lambda>c. c = d) xs") auto
  with Cons show ?case by auto
qed

subsection \<open>What the resolver returns\<close>

lemma extractArticle_Some:
  assumes "extractArticle t = Some a"
  shows "CHR '':'' \<notin> set (ns a) \<and> CHR '':'' \<notin> set (title a) \<and> title a \<noteq> []"
proof (cases "truthy t")
  case False
  with assms show ?thesis by (auto simp: extractArticle_def)
next
  case True
  then obtain s where s: "t = Some s" "s \<noteq> []" by (auto simp: truthy_def split: option.splits)
  have pieces: "\<And>seg. seg \<in> set (js_split CHR '':'' s) \<Longrightarrow> CHR '':'' \<notin> set seg"
    using split_where_pieces [of _ "\<lambda>c. c = CHR '':''" s] by (auto simp: js_split_def)
  show ?thesis
  proof (cases "js_split CHR '':'' s")
    case Nil
    with assms True s show ?thesis by (simp add: extractArticle_def)
  next
    case (Cons n rest)
    show ?thesis
    proof (cases rest)
      case Nil
      with Cons have "n = s"
        using split_where_single [of "\<lambda>c. c = CHR '':''" s n] by (simp add: js_split_def)
      with assms True s Cons Nil pieces [of n] show ?thesis
        by (auto simp: extractArticle_def)
    next
      case (Cons b more)
      with assms True s \<open>js_split CHR '':'' s = n # rest\<close> pieces [of n] pieces [of b]
      show ?thesis
        by (auto simp: extractArticle_def split: if_splits)
    qed
  qed
qed

lemma extractArticle_canonical:
  assumes "CHR '':'' \<notin> set (ns a)" "CHR '':'' \<notin> set (title a)" "title a \<noteq> []"
  shows "extractArticle (Some (slice 3 (canonical_path a))) = Some a"
proof (cases "ns a = []")
  case True
  have "js_split CHR '':'' (title a) = [title a]"
    using assms by (auto simp: js_split_def intro: split_where_no_sep)
  with True assms show ?thesis
    by (cases a) (simp add: extractArticle_def canonical_path_def slice_def truthy_def)
next
  case False
  have "split_where (\<lambda>c. c = CHR '':'') (title a) = [title a]"
    using assms by (intro split_where_no_sep) auto
  moreover have "split_where (\<lambda>c. c = CHR '':'') (ns a @ CHR '':'' # title a)
      = ns a # split_where (\<lambda>c. c = CHR '':'') (title a)"
    using assms by (intro split_where_at_sep) auto
  ultimately have "js_split CHR '':'' (ns a @ CHR '':'' # title a) = [ns a, title a]"
    by (simp add: js_split_def)
  with False assms show ?thesis
    by (cases a) (simp add: extractArticle_def canonical_path_def slice_def truthy_def)
qed

lemma extractArticle_None_iff:
  "extractArticle t = None \<longleftrightarrow> (\<exists>s n rest. t = Some s \<and> js_split CHR '':'' s = n # [] # rest)"
proof (cases "truthy t")
  case False
  then show ?thesis
    by (auto simp: extractArticle_def truthy_def js_split_def split: option.splits)
next
  case True
  then obtain s where s: "t = Some s" by (auto simp: truthy_def split: option.splits)
  have "js_split CHR '':'' s \<noteq> []" by (simp add: js_split_def split_where_not_Nil)
  with True s show ?thesis
    by (auto simp: extractArticle_def split: list.splits)
qed

subsection \<open>Eligibility and the rewrite\<close>

lemma private_cookie_set_iff:
  "private_cookie_set cs names \<longleftrightarrow> (\<exists>n\<in>set names. truthy_value (cs n))"
  by (induction names) auto

lemma searchParams_has_iff: "searchParams_has u k \<longleftrightarrow> k \<in> fst ` set (searchParams u)"
  by (simp add: searchParams_has_def)

lemma isEligibleForCache_conj:
  "isEligibleForCache w \<longleftrightarrow>
     \<not> private_cookie_set (cookies w) (PRIVATE_COOKIE_NAMES (env w)) \<and>
     (\<exists>a. targetArticle w = Some a \<and>
          \<not> list_ex (\<lambda>key. searchParams_has (url w) key) DISQUALIFYING_QUERY_KEYS \<and>
          ns a \<in> set (CACHED_NAMESPACES (env w)))"
  by (auto simp: isEligibleForCache_def split: option.splits)

lemma rewrite_unfold:
  "rewrite w =
     (if isEligibleForCache w \<and> targetArticle w \<noteq> None \<and> pathname (url w) = ''/index.php''
      then w\<lparr>url := (url w)\<lparr>pathname := set_pathname (canonical_path (the (targetArticle w))),
                             searchParams := []\<rparr>,
             req := (req w)\<lparr>req_url :=
                      (url w)\<lparr>pathname := set_pathname (canonical_path (the (targetArticle w))),
                             searchParams := []\<rparr>\<rparr>\<rparr>
      else w)"
  unfolding rewrite_def Let_def by (rule refl)

lemma cf_options_cases:
  "cf_options w =
     (if isEligibleForCache w
      then \<lparr>cacheTtlByStatus = Some [(''200'', PAGE_TTL (env w)), (''300-399'', -1),
                                     (''404'', MISSING_PAGE_TTL (env w)), (''500-599'', -1)],
            cacheEverything = True\<rparr>
      else \<lparr>cacheTtlByStatus = None, cacheEverything = False\<rparr>)"
  by (simp add: cf_options_def)

lemma request_of_simps:
  "url (request_of p q e) = \<lparr>pathname = p, searchParams = q\<rparr>"
  "req (request_of p q e) = \<lparr>req_url = \<lparr>pathname = p, searchParams = q\<rparr>, cookie_header = None\<rparr>"
  "env (request_of p q e) = e"
  "cookies (request_of p q e) = empty_object"
  by (simp_all add: request_of_def new_WikiRequest_def truthy_def)

lemma w_ok_simps:
  "url w_ok = \<lparr>pathname = ''/index.php'', searchParams = [(''title'', ''Foo:Bar'')]\<rparr>"
  "env w_ok = env_main"
  "cookies w_ok = one_cookie ''session'' ''''"
  by (simp_all add: w_ok_def new_WikiRequest_def truthy_def)

lemma w_prefs_simps:
  "CLIENT_PREFS_COOKIE_NAME (env (w_prefs v ps)) = ''prefs''"
  "CLIENT_PREFS_CLASS_PREFIXES (env (w_prefs v ps)) = ps"
  "cookies (w_prefs v ps) = one_cookie ''prefs'' v"
  by (simp_all add: w_prefs_def new_WikiRequest_def truthy_def)

lemmas eval_simps =
  request_of_simps env_main_def targetArticle_def searchParams_get_def searchParams_has_def
  extractArticle_def truthy_def js_split_def startsWith_def slice_def isEligibleForCache_conj
  DISQUALIFYING_QUERY_KEYS_def canonical_path_def truthy_value_def empty_object_def
  object_prototype_names_def one_cookie_def

subsection \<open>The \<open>pathname\<close> setter\<close>

lemma set_pathname_w_Foo: "set_pathname ''/w/Foo'' = ''/w/Foo''"
  by code_simp

lemma set_pathname_w_A_B: "set_pathname ''/w/A:B'' = ''/w/A:B''"
  by code_simp

lemma set_pathname_Foo_Bar: "set_pathname ''/w/Foo Bar'' = ''/w/Foo%20Bar''"
  by code_simp

lemma set_pathname_dots: "set_pathname ''/w/../x'' = ''/x''"
  by code_simp

lemma set_pathname_talk: "set_pathname ''/w/User talk:Foo'' = ''/w/User%20talk:Foo''"
  by code_simp

lemma set_pathname_robots: "set_pathname ''/w/../robots.txt'' = ''/robots.txt''"
  by code_simp

lemma utf8_percent_encode_id:
  "\<forall>c\<in>set s. \<not> in_path_percent_encode_set c \<Longrightarrow> utf8_percent_encode s = s"
  by (induction s) (simp_all add: utf8_percent_encode_def)

lemma path_state_no_dots:
  "\<forall>seg\<in>set segs. \<not> is_single_dot seg \<and> \<not> is_double_dot seg \<Longrightarrow>
     path_state segs path = path @ segs"
  by (induction segs arbitrary: path) simp_all

lemma tab_or_newline_encoded: "is_tab_or_newline c \<Longrightarrow> in_path_percent_encode_set c"
  by (auto simp: is_tab_or_newline_def in_path_percent_encode_set_def)

text \<open>The setter stores a path unchanged when none of its bytes is percent-encoded or a
  backslash and none of its segments is a dot segment.\<close>

lemma set_pathname_unchanged:
  assumes plain: "\<forall>c\<in>set s. \<not> in_path_percent_encode_set c \<and> c \<noteq> CHR 0x5C"
    and dots: "\<forall>seg\<in>set (split_where (\<lambda>c. c = CHR ''/'') s).
                 \<not> is_single_dot seg \<and> \<not> is_double_dot seg"
  shows "set_pathname (CHR ''/'' # s) = CHR ''/'' # s"
proof -
  have nt: "\<not> is_tab_or_newline CHR ''/''" and sl: "is_path_separator CHR ''/''"
    by (simp_all add: is_tab_or_newline_def is_path_separator_def)
  have fs: "filter (\<lambda>c. \<not> is_tab_or_newline c) s = s"
    using plain tab_or_newline_encoded by (intro filter_True) blast
  have sp: "split_where is_path_separator s = split_where (\<lambda>c. c = CHR ''/'') s"
    using plain by (intro split_where_cong) (auto simp: is_path_separator_def)
  have enc: "map utf8_percent_encode (split_where (\<lambda>c. c = CHR ''/'') s)
      = split_where (\<lambda>c. c = CHR ''/'') s"
  proof (rule map_idI)
    fix seg assume "seg \<in> set (split_where (\<lambda>c. c = CHR ''/'') s)"
    then have "set seg \<subseteq> set s" by (rule split_where_subset)
    with plain show "utf8_percent_encode seg = seg"
      by (intro utf8_percent_encode_id) auto
  qed
  have "set_pathname (CHR ''/'' # s)
      = concat (map (\<lambda>seg. CHR ''/'' # seg) (path_state (split_where (\<lambda>c. c = CHR ''/'') s) []))"
    by (simp add: set_pathname_def nt fs sl sp enc)
  also have "\<dots> = concat (map (\<lambda>seg. CHR ''/'' # seg) (split_where (\<lambda>c. c = CHR ''/'') s))"
    using dots by (simp add: path_state_no_dots)
  also have "\<dots> = CHR ''/'' # s" by (rule join_split_where)
  finally show ?thesis .
qed

lemma url_plain_colon: "url_plain CHR '':''"
  by (simp add: url_plain_def in_path_percent_encode_set_def is_path_separator_def)

lemma dot_segment_chars:
  "is_single_dot x \<or> is_double_dot x \<Longrightarrow> CHR ''.'' \<in> set x \<or> CHR ''%'' \<in> set x"
  by (auto simp: is_single_dot_def is_double_dot_def)

lemma not_url_plain:
  "\<not> url_plain CHR ''.''" "\<not> url_plain CHR ''%''" "\<not> url_plain CHR ''/''" "\<not> url_plain CHR 0x5C"
  by (simp_all add: url_plain_def is_path_separator_def)

text \<open>In particular the canonical path of an article is stored unchanged when the
  namespace and the title are made of plain bytes.\<close>

lemma set_pathname_canonical_plain:
  assumes "\<forall>c\<in>set (ns a @ title a). url_plain c"
  shows "set_pathname (canonical_path a) = canonical_path a"
proof -
  define x where "x = (if ns a \<noteq> [] then ns a @ '':'' else []) @ title a"
  have x: "\<forall>c\<in>set x. url_plain c"
    using assms url_plain_colon by (auto simp: x_def)
  have cp: "canonical_path a = CHR ''/'' # (''w/'' @ x)"
    by (simp add: canonical_path_def x_def)
  have "\<forall>c\<in>set x. \<not> c = CHR ''/''"
    using x not_url_plain(3) by blast
  then have "split_where (\<lambda>c. c = CHR ''/'') x = [x]"
    by (rule split_where_no_sep)
  then have sp: "split_where (\<lambda>c. c = CHR ''/'') (''w/'' @ x) = [''w'', x]"
    by simp
  have nodot: "\<not> is_single_dot x \<and> \<not> is_double_dot x"
    using x not_url_plain(1,2) dot_segment_chars [of x] by blast
  have w: "\<not> is_single_dot ''w'' \<and> \<not> is_double_dot ''w''"
    by (simp add: is_single_dot_def is_double_dot_def)
  have "set_pathname (CHR ''/'' # (''w/'' @ x)) = CHR ''/'' # (''w/'' @ x)"
  proof (rule set_pathname_unchanged)
    have "\<forall>c\<in>set x. \<not> in_path_percent_encode_set c \<and> c \<noteq> CHR 0x5C"
      using x by (auto simp: url_plain_def is_path_separator_def)
    moreover have "\<not> in_path_percent_encode_set CHR ''w''"
      "\<not> in_path_percent_encode_set CHR ''/''"
      by (simp_all add: in_path_percent_encode_set_def)
    ultimately show "\<forall>c\<in>set (''w/'' @ x). \<not> in_path_percent_encode_set c \<and> c \<noteq> CHR 0x5C"
      by simp
    show "\<forall>seg\<in>set (split_where (\<lambda>c. c = CHR ''/'') (''w/'' @ x)).
                 \<not> is_single_dot seg \<and> \<not> is_double_dot seg"
      using nodot w unfolding sp by simp
  qed
  with cp show ?thesis by simp
qed

text \<open>When the setter stores the canonical path unchanged, the rewritten request is as
  eligible as the request that came in, and \<open>fetch\<close> attaches the directive to every
  eligible request.\<close>

lemma rewrite_keeps_eligibility:
  assumes "\<And>a. targetArticle w = Some a \<Longrightarrow> set_pathname (canonical_path a) = canonical_path a"
  shows "isEligibleForCache (rewrite w) = isEligibleForCache w"
proof (cases "isEligibleForCache w \<and> targetArticle w \<noteq> None \<and> pathname (url w) = ''/index.php''")
  case False
  have "rewrite w = w"
    by (subst rewrite_unfold) (simp only: False if_False)
  then show ?thesis by simp
next
  case True
  then obtain a where a: "targetArticle w = Some a" by auto
  have eq: "set_pathname (canonical_path a) = canonical_path a" using assms a .
  from True a have "extractArticle (searchParams_get (url w) ''title'') = Some a"
    by (simp add: targetArticle_def)
  then have "CHR '':'' \<notin> set (ns a) \<and> CHR '':'' \<notin> set (title a) \<and> title a \<noteq> []"
    by (rule extractArticle_Some)
  then have again: "extractArticle (Some (slice 3 (canonical_path a))) = Some a"
    by (simp add: extractArticle_canonical)
  have shape: "canonical_path a \<noteq> ''/index.php''" "canonical_path a \<noteq> ''/''"
    "startsWith (canonical_path a) ''/w/''"
    by (auto simp: canonical_path_def startsWith_def)
  have u: "url (rewrite w) = (url w)\<lparr>pathname := canonical_path a, searchParams := []\<rparr>"
    and e: "env (rewrite w) = env w" and c: "cookies (rewrite w) = cookies w"
    using True a eq by (simp_all add: rewrite_unfold)
  have t: "targetArticle (rewrite w) = Some a"
    using again shape by (simp add: targetArticle_def u)
  have "isEligibleForCache (rewrite w)"
    using True a t
    by (simp add: isEligibleForCache_conj e c u DISQUALIFYING_QUERY_KEYS_def searchParams_has_def)
  with True show ?thesis by simp
qed

lemma fetch_directive_when_path_kept:
  assumes "isEligibleForCache w"
    and "\<And>a. targetArticle w = Some a \<Longrightarrow> set_pathname (canonical_path a) = canonical_path a"
  shows "snd (snd (fetch w)) =
     \<lparr>cacheTtlByStatus = Some [(''200'', PAGE_TTL (env w)), (''300-399'', -1),
                               (''404'', MISSING_PAGE_TTL (env w)), (''500-599'', -1)],
      cacheEverything = True\<rparr>"
proof -
  have "isEligibleForCache (rewrite w)"
    using assms rewrite_keeps_eligibility [of w] by simp
  moreover have "env (rewrite w) = env w"
    by (simp add: rewrite_unfold)
  ultimately show ?thesis
    by (simp add: fetch_def Let_def cf_options_cases)
qed

lemma fetch_directive_ineligible:
  assumes "\<not> isEligibleForCache w"
  shows "snd (snd (fetch w)) = \<lparr>cacheTtlByStatus = None, cacheEverything = False\<rparr>"
proof -
  have "rewrite w = w"
    using assms by (simp add: rewrite_unfold)
  with assms show ?thesis
    by (simp add: fetch_def Let_def cf_options_cases)
qed

subsection \<open>The preference extractor\<close>

lemma scan_classNames_eq: "scan_classNames p cs acc = acc @ first_with_prefix cs p"
  by (induction cs) (simp_all add: first_with_prefix_def)

lemma scan_classPrefixes_eq:
  "scan_classPrefixes ps cs acc = acc @ concat (map (first_with_prefix cs) ps)"
  by (induction ps arbitrary: acc) (simp_all add: scan_classNames_eq)

lemma getClientPrefs_unfold:
  "getClientPrefs w =
     (case cookies w (CLIENT_PREFS_COOKIE_NAME (env w)) of
        Undefined \<Rightarrow> Inr []
      | Str v \<Rightarrow>
          if v = [] then Inr []
          else Inr (concat (map (first_with_prefix (map trim (js_split CHR '','' v)))
                              (CLIENT_PREFS_CLASS_PREFIXES (env w))))
      | Inherited \<Rightarrow> Inl TypeError)"
  by (simp add: getClientPrefs_def Let_def scan_classPrefixes_eq truthy_value_def
      split: js_value.splits)


lemma tokens_single: "map trim (js_split CHR '','' ''mf-tabs-enabled'') = [''mf-tabs-enabled'']"
  by code_simp


lemma tokens_shared: "map trim (js_split CHR '','' ''a1,ab2'') = [''a1'', ''ab2'']"
  by code_simp

lemma find_Some_holds: "find P xs = Some x \<Longrightarrow> x \<in> set xs \<and> P x"
  by (induction xs) (auto split: if_splits)

lemma first_with_prefix_entry:
  assumes "x \<in> set (first_with_prefix cs p)"
  shows "classPrefix x = p \<and> className x \<in> set cs \<and> startsWith (className x) p"
proof (cases "find (\<lambda>c. startsWith c p) cs")
  case None
  with assms show ?thesis by (simp add: first_with_prefix_def)
next
  case (Some c)
  with assms have "x = \<lparr>className = c, classPrefix = p\<rparr>"
    by (simp add: first_with_prefix_def)
  with find_Some_holds [OF Some] show ?thesis by simp
qed

lemma first_with_prefix_shape:
  "first_with_prefix cs p = [] \<or> (\<exists>c. first_with_prefix cs p = [\<lparr>className = c, classPrefix = p\<rparr>])"
  by (auto simp: first_with_prefix_def split: option.splits)

lemma subseq_classPrefixes:
  "subseq (map classPrefix (concat (map (first_with_prefix cs) ps))) ps"
proof (induction ps)
  case Nil
  then show ?case by simp
next
  case (Cons p ps)
  from first_with_prefix_shape [of cs p] show ?case
  proof
    assume "first_with_prefix cs p = []"
    with Cons show ?thesis by (simp add: list_emb_Cons)
  next
    assume "\<exists>c. first_with_prefix cs p = [\<lparr>className = c, classPrefix = p\<rparr>]"
    with Cons show ?thesis by auto
  qed
qed

lemma classNames_map_filter:
  "map className (concat (map (first_with_prefix cs) ps))
     = List.map_filter (\<lambda>p. find (\<lambda>c. startsWith c p) cs) ps"
  by (induction ps) (simp_all add: first_with_prefix_def List.map_filter_simps split: option.splits)

lemma set_map_filter: "set (List.map_filter f ps) = {c. \<exists>q\<in>set ps. f q = Some c}"
  by (induction ps) (auto simp: List.map_filter_simps split: option.splits)

text \<open>The names picked for a list of prefixes are distinct exactly when no two entries
  of the list pick the same name.\<close>

lemma distinct_map_filter_iff:
  "distinct (List.map_filter f ps) \<longleftrightarrow> sorted_wrt (\<lambda>p q. f p = f q \<longrightarrow> f p = None) ps"
proof (induction ps)
  case Nil
  then show ?case by (simp add: List.map_filter_simps)
next
  case (Cons p ps)
  show ?case
  proof (cases "f p")
    case None
    with Cons show ?thesis by (simp add: List.map_filter_simps)
  next
    case (Some c)
    have "c \<notin> set (List.map_filter f ps) \<longleftrightarrow> (\<forall>q\<in>set ps. f q \<noteq> Some c)"
      by (auto simp: set_map_filter)
    with Cons Some show ?thesis
      by (auto simp: List.map_filter_simps)
  qed
qed

lemma distinct_classNames_iff:
  "distinct (map className (concat (map (first_with_prefix cs) ps))) \<longleftrightarrow>
     (\<forall>i j. i < j \<and> j < length ps
            \<and> find (\<lambda>c. startsWith c (ps ! i)) cs = find (\<lambda>c. startsWith c (ps ! j)) cs
          \<longrightarrow> find (\<lambda>c. startsWith c (ps ! i)) cs = None)"
  unfolding classNames_map_filter distinct_map_filter_iff sorted_wrt_iff_nth_less
  by blast

subsection \<open>Trimming\<close>







lemma truthy_value_iff: "truthy_value v \<longleftrightarrow> (\<exists>s. v = Str s \<and> s \<noteq> []) \<or> v = Inherited"
  by (cases v) (simp_all add: truthy_value_def)

section \<open>Cache eligibility\<close>

text \<open>
  C1. \<open>isEligibleForCache\<close> is true exactly when all four checks pass: no name of
  \<open>PRIVATE_COOKIE_NAMES\<close> has a non-empty value in the cookies, the target article is not
  \<open>null\<close>, none of the keys \<open>action\<close>, \<open>veaction\<close>, \<open>diff\<close>, \<open>curid\<close>, \<open>oldid\<close>, \<open>debug\<close>,
  \<open>redirect\<close> is a name in the query, and the article's namespace is one of
  \<open>CACHED_NAMESPACES\<close>.
\<close>

theorem isEligibleForCache_iff:
  "isEligibleForCache w \<longleftrightarrow>
     (\<forall>n\<in>set (PRIVATE_COOKIE_NAMES (env w)). cookies w n = Undefined \<or> cookies w n = Str []) \<and>
     targetArticle w \<noteq> None \<and>
     (\<forall>k\<in>{''action'', ''veaction'', ''diff'', ''curid'', ''oldid'', ''debug'', ''redirect''}.
          k \<notin> fst ` set (searchParams (url w))) \<and>
     (\<exists>a. targetArticle w = Some a \<and> ns a \<in> set (CACHED_NAMESPACES (env w)))"
proof -
  have priv: "private_cookie_set (cookies w) (PRIVATE_COOKIE_NAMES (env w)) \<longleftrightarrow>
      \<not> (\<forall>n\<in>set (PRIVATE_COOKIE_NAMES (env w)). cookies w n = Undefined \<or> cookies w n = Str [])"
    by (auto simp: private_cookie_set_iff truthy_value_def split: js_value.splits)
  have keys: "list_ex (\<lambda>key. searchParams_has (url w) key) DISQUALIFYING_QUERY_KEYS \<longleftrightarrow>
      \<not> (\<forall>k\<in>{''action'', ''veaction'', ''diff'', ''curid'', ''oldid'', ''debug'', ''redirect''}.
          k \<notin> fst ` set (searchParams (url w)))"
    by (simp add: DISQUALIFYING_QUERY_KEYS_def searchParams_has_iff)
  show ?thesis
    unfolding isEligibleForCache_conj priv keys
    by (cases "targetArticle w") auto
qed

theorem isEligibleForCache_iff_witness:
  "isEligibleForCache w_ok \<and> targetArticle w_ok = Some \<lparr>ns = ''Foo'', title = ''Bar''\<rparr>
   \<and> \<not> isEligibleForCache w_edit"
proof -
  have t: "targetArticle w_ok = Some \<lparr>ns = ''Foo'', title = ''Bar''\<rparr>"
    by (simp add: targetArticle_def w_ok_simps searchParams_get_def extractArticle_def
        truthy_def js_split_def)
  have "isEligibleForCache w_ok"
    using isEligibleForCache_iff [of w_ok] t by (simp add: w_ok_simps env_main_def one_cookie_def)
  moreover have "\<not> isEligibleForCache w_edit"
    using isEligibleForCache_iff [of w_edit] by (simp add: w_edit_def request_of_simps)
  ultimately show ?thesis using t by simp
qed

text \<open>
  C10. A private cookie bound to the empty string does not by itself make the request
  ineligible: a name that reads as the empty string gives the verdict of the same
  request where the name reads as \<open>undefined\<close>, and the loop over \<open>PRIVATE_COOKIE_NAMES\<close>
  returns false only for a name whose value is not empty (a non-empty string, or a
  value inherited from \<open>Object.prototype\<close>).
\<close>

theorem empty_private_cookie_passes:
  "isEligibleForCache (w\<lparr>cookies := (cookies w)(n := Str [])\<rparr>)
     = isEligibleForCache (w\<lparr>cookies := (cookies w)(n := Undefined)\<rparr>)
   \<and> (private_cookie_set cs names \<longleftrightarrow>
        (\<exists>m\<in>set names. (\<exists>v. cs m = Str v \<and> v \<noteq> []) \<or> cs m = Inherited))"
proof -
  have "private_cookie_set ((cookies w)(n := Str [])) names'
      = private_cookie_set ((cookies w)(n := Undefined)) names'" for names'
    by (induction names') (auto simp: truthy_value_def)
  then have "isEligibleForCache (w\<lparr>cookies := (cookies w)(n := Str [])\<rparr>)
     = isEligibleForCache (w\<lparr>cookies := (cookies w)(n := Undefined)\<rparr>)"
    by (simp add: isEligibleForCache_conj targetArticle_def)
  moreover have "private_cookie_set cs names \<longleftrightarrow>
        (\<exists>m\<in>set names. (\<exists>v. cs m = Str v \<and> v \<noteq> []) \<or> cs m = Inherited)"
    by (simp add: private_cookie_set_iff truthy_value_iff)
  ultimately show ?thesis by simp
qed

theorem empty_private_cookie_passes_witness:
  "cookies w_ok ''session'' = Str [] \<and> ''session'' \<in> set (PRIVATE_COOKIE_NAMES (env w_ok))
   \<and> \<not> private_cookie_set (cookies w_ok) (PRIVATE_COOKIE_NAMES (env w_ok))
   \<and> isEligibleForCache w_ok"
proof -
  have p: "\<not> private_cookie_set (cookies w_ok) (PRIVATE_COOKIE_NAMES (env w_ok))"
    using empty_private_cookie_passes
      [of w_ok "''session''" "cookies w_ok" "PRIVATE_COOKIE_NAMES (env w_ok)"]
    by (simp add: w_ok_simps env_main_def one_cookie_def)
  have "targetArticle w_ok = Some \<lparr>ns = ''Foo'', title = ''Bar''\<rparr>"
    by (simp add: targetArticle_def w_ok_simps searchParams_get_def extractArticle_def
        truthy_def js_split_def)
  with p have "isEligibleForCache w_ok"
    by (simp add: isEligibleForCache_conj)
      (simp add: w_ok_simps env_main_def DISQUALIFYING_QUERY_KEYS_def searchParams_has_def)
  with p show ?thesis by (simp add: w_ok_simps env_main_def one_cookie_def)
qed

section \<open>The article resolver\<close>

text \<open>
  C8. Resolution is total: every URL resolves to an article or to \<open>null\<close>, and no step of
  it can throw. The title \<open>Foo:Bar\<close> resolves to namespace \<open>Foo\<close> and title \<open>Bar\<close>, \<open>Foo:\<close>
  to \<open>null\<close> and \<open>Foo\<close> to the empty namespace and title \<open>Foo\<close>, on the \<open>/index.php\<close> path
  and on the \<open>/w/\<close> path alike; \<open>extractArticle\<close> returns \<open>null\<close> exactly when the second
  piece of the title is empty.
\<close>

theorem resolve_total:
  "targetArticle (request_of ''/index.php'' [(''title'', ''Foo:Bar'')] e)
       = Some \<lparr>ns = ''Foo'', title = ''Bar''\<rparr>
   \<and> targetArticle (request_of ''/index.php'' [(''title'', ''Foo:'')] e) = None
   \<and> targetArticle (request_of ''/index.php'' [(''title'', ''Foo'')] e)
       = Some \<lparr>ns = [], title = ''Foo''\<rparr>
   \<and> targetArticle (request_of ''/w/Foo:Bar'' [] e) = Some \<lparr>ns = ''Foo'', title = ''Bar''\<rparr>
   \<and> targetArticle (request_of ''/w/Foo:'' [] e) = None
   \<and> targetArticle (request_of ''/w/Foo'' [] e) = Some \<lparr>ns = [], title = ''Foo''\<rparr>
   \<and> (extractArticle t = None \<longleftrightarrow>
        (\<exists>s n rest. t = Some s \<and> js_split CHR '':'' s = n # [] # rest))
   \<and> (targetArticle w = None \<or> (\<exists>a. targetArticle w = Some a))"
proof -
  have "targetArticle (request_of ''/index.php'' [(''title'', ''Foo:Bar'')] e)
       = Some \<lparr>ns = ''Foo'', title = ''Bar''\<rparr>"
    and "targetArticle (request_of ''/index.php'' [(''title'', ''Foo:'')] e) = None"
    and "targetArticle (request_of ''/index.php'' [(''title'', ''Foo'')] e)
       = Some \<lparr>ns = [], title = ''Foo''\<rparr>"
    and "targetArticle (request_of ''/w/Foo:Bar'' [] e) = Some \<lparr>ns = ''Foo'', title = ''Bar''\<rparr>"
    and "targetArticle (request_of ''/w/Foo:'' [] e) = None"
    and "targetArticle (request_of ''/w/Foo'' [] e) = Some \<lparr>ns = [], title = ''Foo''\<rparr>"
    by (simp_all add: targetArticle_def request_of_simps searchParams_get_def extractArticle_def
        truthy_def js_split_def startsWith_def slice_def)
  moreover have "targetArticle w = None \<or> (\<exists>a. targetArticle w = Some a)"
    by (cases "targetArticle w") simp_all
  ultimately show ?thesis
    using extractArticle_None_iff [of t] by blast
qed

theorem resolve_total_witness:
  "extractArticle (Some ''Foo:'') = None \<and> js_split CHR '':'' ''Foo:'' = [''Foo'', '''']
   \<and> targetArticle (request_of ''/w/Foo:Bar'' [] env_main) = Some \<lparr>ns = ''Foo'', title = ''Bar''\<rparr>"
  using resolve_total [of env_main "Some ''Foo:''" w_main]
  by (simp add: js_split_def)

text \<open>
  C4. The claim is that a title is split at its first colon only, so that \<open>A:B:C\<close> has
  namespace \<open>A\<close> and title \<open>B:C\<close>. The code splits at every colon and keeps the first
  two pieces: \<open>A:B:C\<close> resolves to namespace \<open>A\<close> and title \<open>B\<close>, and \<open>fetch\<close> sends the
  request for \<open>/index.php?title=A:B:C\<close> to \<open>/w/A:B\<close>.
\<close>

theorem extractArticle_drops_later_pieces:
  "extractArticle (Some ''A:B:C'') = Some \<lparr>ns = ''A'', title = ''B''\<rparr>
   \<and> extractArticle (Some ''A:B:C'') \<noteq> Some \<lparr>ns = ''A'', title = ''B:C''\<rparr>
   \<and> isEligibleForCache w_abc
   \<and> pathname (req_url (fst (snd (fetch w_abc)))) = ''/w/A:B''"
proof -
  have x: "extractArticle (Some ''A:B:C'') = Some \<lparr>ns = ''A'', title = ''B''\<rparr>"
    by (simp add: extractArticle_def truthy_def js_split_def)
  have e: "isEligibleForCache w_abc"
    and t: "targetArticle w_abc = Some \<lparr>ns = ''A'', title = ''B''\<rparr>"
    by (simp_all add: w_abc_def eval_simps)
  have "pathname (req_url (fst (snd (fetch w_abc)))) = ''/w/A:B''"
    using e t
    by (simp add: fetch_def Let_def rewrite_unfold canonical_path_def set_pathname_w_A_B
        w_abc_def request_of_simps)
  with x e show ?thesis by simp
qed

section \<open>Rewriting and dispatch\<close>

text \<open>
  C2. The request of a request that is not eligible goes out as it came in: the request
  handed to the platform's \<open>fetch\<close> is the inbound request, path and query included, and
  the URL is left as it was. The request is replaced only when the inbound request is
  eligible, its path is \<open>/index.php\<close> and an article resolved.
\<close>

theorem fetch_keeps_ineligible_request:
  "(\<not> isEligibleForCache w \<longrightarrow> fst (snd (fetch w)) = req w \<and> url (fst (fetch w)) = url w)
   \<and> (fst (snd (fetch w)) \<noteq> req w \<longrightarrow>
        isEligibleForCache w \<and> pathname (url w) = ''/index.php'' \<and> targetArticle w \<noteq> None)"
proof (cases "isEligibleForCache w \<and> targetArticle w \<noteq> None \<and> pathname (url w) = ''/index.php''")
  case True
  then show ?thesis by simp
next
  case False
  have "rewrite w = w"
    by (subst rewrite_unfold) (simp only: False if_False)
  then have "fst (snd (fetch w)) = req w" and "url (fst (fetch w)) = url w"
    by (simp_all add: fetch_def Let_def)
  then show ?thesis by simp
qed

theorem fetch_keeps_ineligible_request_witness:
  "\<not> isEligibleForCache w_edit \<and> fst (snd (fetch w_edit)) = req w_edit
   \<and> pathname (req_url (fst (snd (fetch w_edit)))) = ''/index.php''
   \<and> searchParams (req_url (fst (snd (fetch w_edit)))) = [(''title'', ''Foo''), (''action'', ''edit'')]"
proof -
  have n: "\<not> isEligibleForCache w_edit"
    by (simp add: w_edit_def eval_simps)
  with fetch_keeps_ineligible_request [of w_edit] have "fst (snd (fetch w_edit)) = req w_edit"
    by simp
  with n show ?thesis by (simp add: w_edit_def request_of_simps)
qed

text \<open>
  C5. For an eligible request at \<open>/index.php\<close> with a resolved article whose canonical
  path the \<open>pathname\<close> setter stores unchanged, the rewritten URL has the canonical path
  and no query, and it resolves to the article the inbound URL resolved to.
\<close>

theorem canonical_roundtrip:
  assumes "isEligibleForCache w" and "pathname (url w) = ''/index.php''"
    and "targetArticle w = Some a"
    and "set_pathname (canonical_path a) = canonical_path a"
  shows "pathname (url (rewrite w)) = canonical_path a \<and> searchParams (url (rewrite w)) = []
    \<and> targetArticle (rewrite w) = targetArticle w"
proof -
  have u: "url (rewrite w) = (url w)\<lparr>pathname := canonical_path a, searchParams := []\<rparr>"
    using assms by (simp add: rewrite_unfold)
  from assms(2,3) have "extractArticle (searchParams_get (url w) ''title'') = Some a"
    by (simp add: targetArticle_def)
  then have "CHR '':'' \<notin> set (ns a) \<and> CHR '':'' \<notin> set (title a) \<and> title a \<noteq> []"
    by (rule extractArticle_Some)
  then have again: "extractArticle (Some (slice 3 (canonical_path a))) = Some a"
    by (simp add: extractArticle_canonical)
  have shape: "canonical_path a \<noteq> ''/index.php''" "canonical_path a \<noteq> ''/''"
    "startsWith (canonical_path a) ''/w/''"
    by (auto simp: canonical_path_def startsWith_def)
  have "targetArticle (rewrite w) = Some a"
    using again shape by (simp add: targetArticle_def u)
  with u assms(3) show ?thesis by simp
qed

theorem canonical_roundtrip_witness:
  "isEligibleForCache w_main \<and> pathname (url w_main) = ''/index.php''
   \<and> targetArticle w_main = Some \<lparr>ns = [], title = ''Foo''\<rparr>
   \<and> pathname (url (rewrite w_main)) = ''/w/Foo''
   \<and> targetArticle (rewrite w_main) = Some \<lparr>ns = [], title = ''Foo''\<rparr>"
proof -
  have e: "isEligibleForCache w_main" and p: "pathname (url w_main) = ''/index.php''"
    and t: "targetArticle w_main = Some \<lparr>ns = [], title = ''Foo''\<rparr>"
    by (simp_all add: w_main_def eval_simps)
  have s: "set_pathname (canonical_path \<lparr>ns = [], title = ''Foo''\<rparr>)
      = canonical_path \<lparr>ns = [], title = ''Foo''\<rparr>"
    by (simp add: canonical_path_def set_pathname_w_Foo)
  from canonical_roundtrip [OF e p t s] e p t show ?thesis
    by (simp add: canonical_path_def)
qed

text \<open>
  The round trip fails for \<open>/index.php?title=Foo Bar\<close>: the setter stores the space as
  \<open>%20\<close>, the resolver does not decode it, and the rewritten URL resolves to the title
  \<open>Foo%20Bar\<close>.
\<close>

theorem canonical_roundtrip_fails_on_space:
  "isEligibleForCache w_space \<and> pathname (url w_space) = ''/index.php''
   \<and> targetArticle w_space = Some \<lparr>ns = [], title = ''Foo Bar''\<rparr>
   \<and> pathname (url (rewrite w_space)) = ''/w/Foo%20Bar''
   \<and> targetArticle (rewrite w_space) = Some \<lparr>ns = [], title = ''Foo%20Bar''\<rparr>
   \<and> targetArticle (rewrite w_space) \<noteq> targetArticle w_space"
proof -
  have e: "isEligibleForCache w_space" and p: "pathname (url w_space) = ''/index.php''"
    and t: "targetArticle w_space = Some \<lparr>ns = [], title = ''Foo Bar''\<rparr>"
    by (simp_all add: w_space_def eval_simps)
  have u: "url (rewrite w_space) = \<lparr>pathname = ''/w/Foo%20Bar'', searchParams = []\<rparr>"
    using e p t
    by (simp add: rewrite_unfold canonical_path_def set_pathname_Foo_Bar w_space_def
        request_of_simps)
  have "targetArticle (rewrite w_space) = Some \<lparr>ns = [], title = ''Foo%20Bar''\<rparr>"
    by (simp add: targetArticle_def u extractArticle_def truthy_def js_split_def startsWith_def
        slice_def)
  with e p t u show ?thesis by simp
qed

text \<open>
  C3. The claim is that the verdict computed after the rewrite is the verdict computed
  before it. For \<open>/index.php?title=../x\<close> it is not: the request is eligible, the
  setter resolves the dot segment of \<open>/w/../x\<close> and stores \<open>/x\<close>, which resolves to no
  article, and the verdict that \<open>fetch\<close> computes next is false.
\<close>

theorem eligibility_lost_by_rewrite:
  "isEligibleForCache w_dots
   \<and> pathname (url (fst (fetch w_dots))) = ''/x''
   \<and> searchParams (url (fst (fetch w_dots))) = []
   \<and> targetArticle (fst (fetch w_dots)) = None
   \<and> \<not> isEligibleForCache (fst (fetch w_dots))"
proof -
  have e: "isEligibleForCache w_dots" and p: "pathname (url w_dots) = ''/index.php''"
    and t: "targetArticle w_dots = Some \<lparr>ns = [], title = ''../x''\<rparr>"
    by (simp_all add: w_dots_def eval_simps)
  have u: "url (rewrite w_dots) = \<lparr>pathname = ''/x'', searchParams = []\<rparr>"
    using e p t
    by (simp add: rewrite_unfold canonical_path_def set_pathname_dots w_dots_def request_of_simps)
  have n: "targetArticle (rewrite w_dots) = None"
    by (simp add: targetArticle_def u startsWith_def)
  then have "\<not> isEligibleForCache (rewrite w_dots)"
    by (simp add: isEligibleForCache_conj)
  with e u n show ?thesis by (simp add: fetch_def Let_def)
qed

text \<open>
  The verdict is lost in the same way when the setter percent-encodes a byte of the
  namespace: the eligible request \<open>/index.php?title=User talk:Foo\<close> is rewritten to
  \<open>/w/User%20talk:Foo\<close>, whose namespace \<open>User%20talk\<close> is not a cached one.
\<close>

lemma eligibility_lost_by_encoded_namespace:
  "isEligibleForCache w_talk
   \<and> pathname (url (rewrite w_talk)) = ''/w/User%20talk:Foo''
   \<and> targetArticle (rewrite w_talk) = Some \<lparr>ns = ''User%20talk'', title = ''Foo''\<rparr>
   \<and> \<not> isEligibleForCache (rewrite w_talk)"
proof -
  have e: "isEligibleForCache w_talk" and p: "pathname (url w_talk) = ''/index.php''"
    and t: "targetArticle w_talk = Some \<lparr>ns = ''User talk'', title = ''Foo''\<rparr>"
    by (simp_all add: w_talk_def eval_simps)
  have u: "url (rewrite w_talk) = \<lparr>pathname = ''/w/User%20talk:Foo'', searchParams = []\<rparr>"
    and v: "CACHED_NAMESPACES (env (rewrite w_talk)) = ['''', ''User talk'']"
    using e p t
    by (simp_all add: rewrite_unfold canonical_path_def set_pathname_talk w_talk_def
        request_of_simps env_main_def)
  have n: "targetArticle (rewrite w_talk) = Some \<lparr>ns = ''User%20talk'', title = ''Foo''\<rparr>"
    by (simp add: targetArticle_def u extractArticle_def truthy_def js_split_def startsWith_def
        slice_def)
  then have "\<not> isEligibleForCache (rewrite w_talk)"
    by (simp add: isEligibleForCache_conj v)
  with e u n show ?thesis by simp
qed

text \<open>
  C7. The claim is that every eligible request is dispatched with the directive
  \<open>200\<close> to \<open>PAGE_TTL\<close>, \<open>300-399\<close> to \<open>-1\<close>, \<open>404\<close> to \<open>MISSING_PAGE_TTL\<close>, \<open>500-599\<close> to
  \<open>-1\<close> and with \<open>cacheEverything\<close>, and every other request without a directive. The
  eligible request \<open>/index.php?title=../robots.txt\<close> is dispatched to \<open>/robots.txt\<close>
  with \<open>cacheTtlByStatus\<close> undefined and \<open>cacheEverything\<close> false.
\<close>

theorem directive_missing_for_eligible_request:
  "isEligibleForCache w_robots
   \<and> req_url (fst (snd (fetch w_robots))) = \<lparr>pathname = ''/robots.txt'', searchParams = []\<rparr>
   \<and> snd (snd (fetch w_robots)) = \<lparr>cacheTtlByStatus = None, cacheEverything = False\<rparr>"
proof -
  have e: "isEligibleForCache w_robots" and p: "pathname (url w_robots) = ''/index.php''"
    and t: "targetArticle w_robots = Some \<lparr>ns = [], title = ''../robots.txt''\<rparr>"
    by (simp_all add: w_robots_def eval_simps)
  have u: "url (rewrite w_robots) = \<lparr>pathname = ''/robots.txt'', searchParams = []\<rparr>"
    and r: "req_url (req (rewrite w_robots)) = \<lparr>pathname = ''/robots.txt'', searchParams = []\<rparr>"
    using e p t
    by (simp_all add: rewrite_unfold canonical_path_def set_pathname_robots w_robots_def
        request_of_simps)
  have "targetArticle (rewrite w_robots) = None"
    by (simp add: targetArticle_def u startsWith_def)
  then have "\<not> isEligibleForCache (rewrite w_robots)"
    by (simp add: isEligibleForCache_conj)
  with e r show ?thesis by (simp add: fetch_def Let_def cf_options_cases)
qed

section \<open>Client preferences\<close>




text \<open>
  C6. A result of \<open>getClientPrefs\<close> has at most one entry for each configured prefix: its
  prefixes, in order, are a subsequence of the configured prefixes. Every class name
  appears at most once in it exactly when no class name is the first match of two
  entries of the configured prefixes.
\<close>

theorem className_once:
  assumes "getClientPrefs w = Inr r"
  shows "subseq (map classPrefix r) (CLIENT_PREFS_CLASS_PREFIXES (env w))
   \<and> (distinct (map className r) \<longleftrightarrow>
        (\<forall>i j. i < j \<and> j < length (CLIENT_PREFS_CLASS_PREFIXES (env w))
               \<and> first_match w (CLIENT_PREFS_CLASS_PREFIXES (env w) ! i)
                   = first_match w (CLIENT_PREFS_CLASS_PREFIXES (env w) ! j)
             \<longrightarrow> first_match w (CLIENT_PREFS_CLASS_PREFIXES (env w) ! i) = None))"
proof (cases "\<exists>v. cookies w (CLIENT_PREFS_COOKIE_NAME (env w)) = Str v \<and> v \<noteq> []")
  case True
  then obtain v where v: "cookies w (CLIENT_PREFS_COOKIE_NAME (env w)) = Str v" "v \<noteq> []"
    by blast
  let ?cs = "map trim (js_split CHR '','' v)"
  from assms v have r: "r = concat (map (first_with_prefix ?cs) (CLIENT_PREFS_CLASS_PREFIXES (env w)))"
    by (simp add: getClientPrefs_unfold)
  have fm: "first_match w p = find (\<lambda>c. startsWith c p) ?cs" for p
    using v by (simp add: first_match_def cookie_value_def)
  show ?thesis
    unfolding r fm using subseq_classPrefixes distinct_classNames_iff by blast
next
  case False
  with assms have r: "r = []"
    by (auto simp: getClientPrefs_unfold split: js_value.splits if_splits)
  have "first_match w p = None" for p
    using False by (auto simp: first_match_def cookie_value_def split: js_value.splits)
  with r show ?thesis by simp
qed

theorem className_once_witness:
  "getClientPrefs (w_prefs ''a1,ab2'' [''a'', ''ab''])
     = Inr [\<lparr>className = ''a1'', classPrefix = ''a''\<rparr>, \<lparr>className = ''ab2'', classPrefix = ''ab''\<rparr>]
   \<and> startsWith ''ab2'' ''a'' \<and> startsWith ''ab2'' ''ab''
   \<and> first_match (w_prefs ''a1,ab2'' [''a'', ''ab'']) ''a'' = Some ''a1''
   \<and> first_match (w_prefs ''a1,ab2'' [''a'', ''ab'']) ''ab'' = Some ''ab2''
   \<and> distinct (map className
        [\<lparr>className = ''a1'', classPrefix = ''a''\<rparr>, \<lparr>className = ''ab2'', classPrefix = ''ab''\<rparr>])
   \<and> subseq (map classPrefix
        [\<lparr>className = ''a1'', classPrefix = ''a''\<rparr>, \<lparr>className = ''ab2'', classPrefix = ''ab''\<rparr>])
        [''a'', ''ab'']"
proof -
  let ?w = "w_prefs ''a1,ab2'' [''a'', ''ab'']"
  let ?r = "[\<lparr>className = ''a1'', classPrefix = ''a''\<rparr>, \<lparr>className = ''ab2'', classPrefix = ''ab''\<rparr>]"
  have g: "getClientPrefs ?w = Inr ?r"
    by (simp add: getClientPrefs_unfold w_prefs_simps one_cookie_def tokens_shared
        first_with_prefix_def startsWith_def)
  have f: "first_match ?w ''a'' = Some ''a1''" "first_match ?w ''ab'' = Some ''ab2''"
    by (simp_all add: first_match_def cookie_value_def w_prefs_simps one_cookie_def tokens_shared
        startsWith_def)
  have c: "\<forall>i j. i < j \<and> j < length (CLIENT_PREFS_CLASS_PREFIXES (env ?w))
               \<and> first_match ?w (CLIENT_PREFS_CLASS_PREFIXES (env ?w) ! i)
                   = first_match ?w (CLIENT_PREFS_CLASS_PREFIXES (env ?w) ! j)
             \<longrightarrow> first_match ?w (CLIENT_PREFS_CLASS_PREFIXES (env ?w) ! i) = None"
    using f by (auto simp: w_prefs_simps less_Suc_eq nth_Cons')
  from className_once [OF g] c have "distinct (map className ?r)"
    and "subseq (map classPrefix ?r) (CLIENT_PREFS_CLASS_PREFIXES (env ?w))"
    by blast+
  with g f show ?thesis by (simp add: startsWith_def w_prefs_simps)
qed

text \<open>
  A class name is repeated when it is the first match of two configured prefixes: with
  the prefixes \<open>mf-\<close> and \<open>mf-tabs-\<close> the cookie value \<open>mf-tabs-enabled\<close> gives two entries
  with the class name \<open>mf-tabs-enabled\<close>.
\<close>

theorem className_repeated:
  "getClientPrefs (w_prefs ''mf-tabs-enabled'' [''mf-'', ''mf-tabs-''])
     = Inr [\<lparr>className = ''mf-tabs-enabled'', classPrefix = ''mf-''\<rparr>,
            \<lparr>className = ''mf-tabs-enabled'', classPrefix = ''mf-tabs-''\<rparr>]
   \<and> \<not> distinct (map className
         [\<lparr>className = ''mf-tabs-enabled'', classPrefix = ''mf-''\<rparr>,
          \<lparr>className = ''mf-tabs-enabled'', classPrefix = ''mf-tabs-''\<rparr>])"
  by (simp add: getClientPrefs_unfold w_prefs_simps one_cookie_def tokens_single
      first_with_prefix_def startsWith_def)

end
